theory Spec2Isabelle
  imports Main
begin

section \<open>The service compiler of compiler.class.ts\<close>

text \<open>
  The class \<open>ServiceCompiler\<close> walks a tree of module classes, reads the routing metadata
  attached to them and to the methods of the components they export, and registers one
  route per eligible method on an Express application. The model below follows the
  methods of the class one by one. The Express application is the log of the calls the
  compiler makes on it, in the order it makes them; what Express does with them is
  outside the repository and outside the model.
\<close>

subsection \<open>Values\<close>

text \<open>A class (a module or a component) is identified by its name.\<close>

type_synonym class_id = string

text \<open>The element type of the argument of \<open>getPath\<close>: \<open>string | null | undefined\<close>.\<close>

datatype part = Str string | Null | Undefined

text \<open>JavaScript truthiness on that type: only the non-empty strings are truthy.\<close>

fun truthy :: "part \<Rightarrow> bool" where
  "truthy (Str s) = (s \<noteq> [])"
| "truthy Null = False"
| "truthy Undefined = False"

text \<open>\<open>Array.prototype.join\<close> writes \<open>null\<close> and \<open>undefined\<close> elements as the empty string.\<close>

fun text_of :: "part \<Rightarrow> string" where
  "text_of (Str s) = s"
| "text_of Null = []"
| "text_of Undefined = []"

fun js_join :: "string \<Rightarrow> part list \<Rightarrow> string" where
  "js_join sep [] = []"
| "js_join sep [p] = text_of p"
| "js_join sep (p # q # ps) = text_of p @ sep @ js_join sep (q # ps)"

subsection \<open>getPath\<close>

text \<open>\<^verbatim>\<open>return parts.filter(part => part).join('/');\<close>\<close>

definition getPath :: "part list \<Rightarrow> string" where
  "getPath parts = js_join ''/'' (filter truthy parts)"

subsection \<open>The metadata store\<close>

text \<open>
  A record of the store is keyed by target and key at class scope, and by target, key and
  method name at method scope.
\<close>

type_synonym 'v scoped = "class_id \<times> string \<times> string option \<Rightarrow> 'v option"

text \<open>
  Modelled from the spec: \<open>Injector.get\<close> of injector.class.ts, which is not among the
  sources. The resolution order is the one of section 4.1: the exact method-scope record,
  else the class-scope record, else the supplied default, else an absent result. An
  absent default and an absent result are \<open>None\<close>.
\<close>

definition Injector_get ::
  "'v scoped \<Rightarrow> class_id \<Rightarrow> string \<Rightarrow> 'v option \<Rightarrow> string option \<Rightarrow> 'v option" where
  "Injector_get M target k dflt methodScope =
     (case (case methodScope of None \<Rightarrow> None | Some m \<Rightarrow> M (target, k, Some m)) of
        Some v \<Rightarrow> Some v
      | None \<Rightarrow> (case M (target, k, None) of Some v \<Rightarrow> Some v | None \<Rightarrow> dflt))"

text \<open>
  Modelled from the spec: \<open>Injector.getAll\<close> of injector.class.ts, the bulk lookup of
  section 4.1: the mapping from key to value of every key recorded for the method scope.
\<close>

definition Injector_getAll :: "'v scoped \<Rightarrow> class_id \<Rightarrow> string \<Rightarrow> (string \<Rightarrow> 'v option)" where
  "Injector_getAll M target m = (\<lambda>k. M (target, k, Some m))"

text \<open>
  Modelled from the spec: \<open>Injector.resolve\<close> of injector.class.ts, the activation
  mechanism of section 6, whose construction details are opaque. An instance is
  represented by its class: the metadata read through an instance is the metadata of its
  class.
\<close>

definition Injector_resolve :: "class_id \<Rightarrow> class_id" where
  "Injector_resolve Component = Component"

text \<open>
  What the compiler reads of the loaded program: the string-valued records (\<open>path\<close>,
  \<open>method\<close> and the response metadata), the class-list records (\<open>exports\<close>,
  \<open>imports\<close>), and the own property names of the prototype of every class, in the order
  \<open>Object.getOwnPropertyNames\<close> returns them.
\<close>

record world =
  texts :: "string scoped"
  class_lists :: "class_id list scoped"
  own_names :: "class_id \<Rightarrow> string list"

text \<open>
  A string-valued lookup is used where the code expects \<open>string | null\<close>: an absent
  result is the \<open>null\<close> the code passes as default.
\<close>

fun as_part :: "string option \<Rightarrow> part" where
  "as_part None = Null"
| "as_part (Some s) = Str s"

text \<open>A class-list lookup is always made with a default list.\<close>

fun as_list :: "'a list option \<Rightarrow> 'a list" where
  "as_list None = []"
| "as_list (Some xs) = xs"

subsection \<open>The Express application\<close>

datatype port = PortNumber nat | PortString string

datatype facade_call =
    Use string
  | Route string string class_id string
  | Listen port

type_synonym application = "facade_call list"

text \<open>
  \<open>Route verb path aComponent name\<close> is the call
  \<^verbatim>\<open>this.app[verb](path, this.getHandler(aComponent, name))\<close>,
  \<open>Use parser\<close> is \<^verbatim>\<open>this.app.use(parser)\<close> and \<open>Listen port\<close> is
  \<^verbatim>\<open>this.app.listen(port, this.greet(port))\<close>.
\<close>

subsection \<open>Route compilation\<close>

text \<open>\<^verbatim>\<open>this.app[method]('/' + path, this.getHandler(aComponent, name));\<close>\<close>

definition addRoute :: "string \<Rightarrow> string \<Rightarrow> class_id \<Rightarrow> string \<Rightarrow> application \<Rightarrow> application" where
  "addRoute method path aComponent name calls =
     calls @ [Route method (''/'' @ path) aComponent name]"

definition addRouteFromMethod :: "world \<Rightarrow> class_id \<Rightarrow> string \<Rightarrow> string \<Rightarrow> application \<Rightarrow> application" where
  "addRouteFromMethod W Component method path calls =
     (let aComponent = Injector_resolve Component;
          reqMethod = as_part (Injector_get (texts W) aComponent ''method'' None (Some method))
      in if truthy reqMethod
         then addRoute (text_of reqMethod)
                (getPath [Str path, as_part (Injector_get (texts W) aComponent ''path'' None (Some method))])
                aComponent method calls
         else calls)"

definition getMethodList :: "world \<Rightarrow> class_id \<Rightarrow> string list" where
  "getMethodList W Component = filter (\<lambda>name. name \<noteq> ''constructor'') (own_names W Component)"

definition addExportedComponents :: "world \<Rightarrow> string \<Rightarrow> class_id list \<Rightarrow> application \<Rightarrow> application" where
  "addExportedComponents W path includes calls =
     fold (\<lambda>Component a. fold (\<lambda>method b. addRouteFromMethod W Component method path b)
                             (getMethodList W Component) a)
          includes calls"

subsection \<open>Unpacking\<close>

text \<open>
  The recursion of \<open>unpack\<close> follows the \<open>imports\<close> records of the store, which may lead
  back to a module already being unpacked. The model counts the depth of the calls: with
  \<open>n\<close> nested calls allowed, \<open>None\<close> says that the walk needs more. \<open>unpack_each\<close> is
  \<^verbatim>\<open>imports.forEach((Child) => this.unpack(Child, path))\<close>.
\<close>

fun unpack :: "nat \<Rightarrow> world \<Rightarrow> class_id \<Rightarrow> string \<Rightarrow> application \<Rightarrow> application option"
and unpack_each :: "nat \<Rightarrow> world \<Rightarrow> class_id list \<Rightarrow> string \<Rightarrow> application \<Rightarrow> application option" where
  "unpack 0 W Parent inputPath calls = None"
| "unpack (Suc n) W Parent inputPath calls =
     (let path = getPath [Str inputPath, as_part (Injector_get (texts W) Parent ''path'' (Some []) None)];
          imports = as_list (Injector_get (class_lists W) Parent ''imports'' (Some []) None);
          calls' = addExportedComponents W path
                     (as_list (Injector_get (class_lists W) Parent ''exports'' (Some []) None)) calls
      in unpack_each n W imports path calls')"
| "unpack_each n W [] path calls = Some calls"
| "unpack_each n W (Child # rest) path calls =
     (case unpack n W Child path calls of
        None \<Rightarrow> None
      | Some calls' \<Rightarrow> unpack_each n W rest path calls')"

subsection \<open>bootstrap\<close>

text \<open>The two fields of the compiler: the application and the server it listens with.\<close>

record compiler =
  app :: application
  server :: "port option"

definition addParser :: "compiler \<Rightarrow> compiler" where
  "addParser c = c\<lparr>app := app c @ [Use ''urlencoded'', Use ''json'']\<rparr>"

text \<open>
  \<^verbatim>\<open>port = process.env.port || port\<close>: a variable of the environment is a string, and
  the empty string is falsy.
\<close>

definition override_port :: "string option \<Rightarrow> port \<Rightarrow> port" where
  "override_port env_port p =
     (case env_port of None \<Rightarrow> p | Some s \<Rightarrow> if s \<noteq> [] then PortString s else p)"

definition bootstrap :: "nat \<Rightarrow> world \<Rightarrow> string option \<Rightarrow> class_id \<Rightarrow> port \<Rightarrow> compiler \<Rightarrow> compiler option" where
  "bootstrap n W env_port Parent p c =
     (let p' = override_port env_port p;
          c1 = addParser c
      in case unpack n W Parent [] (app c1) of
           None \<Rightarrow> None
         | Some calls \<Rightarrow> Some (c1\<lparr>app := calls @ [Listen p'], server := Some p'\<rparr>))"

text \<open>The route table of an application: its route registrations, in order.\<close>

fun is_route :: "facade_call \<Rightarrow> bool" where
  "is_route (Route verb p aComponent name) = True"
| "is_route (Use parser) = False"
| "is_route (Listen p) = False"

definition route_table :: "application \<Rightarrow> application" where
  "route_table calls = filter is_route calls"

definition fresh :: compiler where
  "fresh = \<lparr>app = [], server = None\<rparr>"

subsection \<open>getHandler\<close>

text \<open>
  Modelled from the spec: the class \<open>HttpResponse\<close> of http/classes/response.class.ts,
  which is not among the sources: the decorated response of section 4.4, the raw response
  together with the metadata of the method.
\<close>

record 'res HttpResponse =
  raw :: 'res
  meta :: "string \<Rightarrow> string option"

definition new_HttpResponse :: "'res \<Rightarrow> (string \<Rightarrow> string option) \<Rightarrow> 'res HttpResponse" where
  "new_HttpResponse res m = \<lparr>raw = res, meta = m\<rparr>"

text \<open>
  \<open>invoke aComponent name\<close> is the method \<open>aComponent[name]\<close>: called with the request
  and the response, it either throws (\<open>Inl\<close>) or completes (\<open>Inr\<close>). The handler is the
  closure
  \<^verbatim>\<open>(req, res) => { const meta = Injector.getAll(aComponent, name);
                   aComponent[name](req, new HttpResponse(res, meta)); }\<close>
  which has no \<open>try\<close>.
\<close>

definition getHandler ::
  "world \<Rightarrow> (class_id \<Rightarrow> string \<Rightarrow> 'req \<Rightarrow> 'res HttpResponse \<Rightarrow> 'err + 'out) \<Rightarrow>
   class_id \<Rightarrow> string \<Rightarrow> 'req \<Rightarrow> 'res \<Rightarrow> 'err + 'out" where
  "getHandler W invoke aComponent name =
     (\<lambda>req res.
        let m = Injector_getAll (texts W) aComponent name
        in invoke aComponent name req (new_HttpResponse res m))"

section \<open>Specification-level notions\<close>

subsection \<open>Path joining\<close>

text \<open>The words of the specification: drop the empty and absent entries, join the rest with a slash.\<close>

fun kept_segments :: "part list \<Rightarrow> string list" where
  "kept_segments [] = []"
| "kept_segments (Str s # ps) = (if s = [] then kept_segments ps else s # kept_segments ps)"
| "kept_segments (Null # ps) = kept_segments ps"
| "kept_segments (Undefined # ps) = kept_segments ps"

fun slash_joined :: "string list \<Rightarrow> string" where
  "slash_joined [] = []"
| "slash_joined [s] = s"
| "slash_joined (s # t # ss) = s @ ''/'' @ slash_joined (t # ss)"

subsection \<open>The route table, by segments\<close>

text \<open>
  The specification describes the full path of a route as a slash followed by the joined
  non-empty segments from the root module down to the sub-path of the method. The walk
  below is the one of the specification: it hands down the list of the segments seen so
  far, root first, instead of a joined prefix.
\<close>

definition spec_full_path :: "part list \<Rightarrow> string" where
  "spec_full_path segments = ''/'' @ slash_joined (kept_segments segments)"

definition spec_method_route :: "world \<Rightarrow> part list \<Rightarrow> class_id \<Rightarrow> string \<Rightarrow> application \<Rightarrow> application" where
  "spec_method_route W segments Component method calls =
     (let verb = as_part (Injector_get (texts W) Component ''method'' None (Some method));
          subPath = as_part (Injector_get (texts W) Component ''path'' None (Some method))
      in if truthy verb
         then calls @ [Route (text_of verb) (spec_full_path (segments @ [subPath])) Component method]
         else calls)"

definition spec_component_routes :: "world \<Rightarrow> part list \<Rightarrow> class_id list \<Rightarrow> application \<Rightarrow> application" where
  "spec_component_routes W segments includes calls =
     fold (\<lambda>Component a. fold (\<lambda>method b. spec_method_route W segments Component method b)
                             (getMethodList W Component) a)
          includes calls"

fun spec_unpack :: "nat \<Rightarrow> world \<Rightarrow> class_id \<Rightarrow> part list \<Rightarrow> application \<Rightarrow> application option"
and spec_unpack_each :: "nat \<Rightarrow> world \<Rightarrow> class_id list \<Rightarrow> part list \<Rightarrow> application \<Rightarrow> application option" where
  "spec_unpack 0 W Parent segments calls = None"
| "spec_unpack (Suc n) W Parent segments calls =
     (let segments' = segments @ [as_part (Injector_get (texts W) Parent ''path'' (Some []) None)]
      in spec_unpack_each n W
           (as_list (Injector_get (class_lists W) Parent ''imports'' (Some []) None)) segments'
           (spec_component_routes W segments'
              (as_list (Injector_get (class_lists W) Parent ''exports'' (Some []) None)) calls))"
| "spec_unpack_each n W [] segments calls = Some calls"
| "spec_unpack_each n W (Child # rest) segments calls =
     (case spec_unpack n W Child segments calls of
        None \<Rightarrow> None
      | Some calls' \<Rightarrow> spec_unpack_each n W rest segments calls')"

subsection \<open>The import graph\<close>

definition imports_of :: "world \<Rightarrow> class_id \<Rightarrow> class_id list" where
  "imports_of W Parent = as_list (Injector_get (class_lists W) Parent ''imports'' (Some []) None)"

definition import_edges :: "world \<Rightarrow> (class_id \<times> class_id) set" where
  "import_edges W = {(Parent, Child). Child \<in> set (imports_of W Parent)}"

text \<open>The modules the walk from a root can reach, and the roots whose graph has a cycle.\<close>

definition reachable :: "world \<Rightarrow> class_id \<Rightarrow> class_id set" where
  "reachable W root = (import_edges W)\<^sup>* `` {root}"

definition cyclic_from :: "world \<Rightarrow> class_id \<Rightarrow> bool" where
  "cyclic_from W root = (\<exists>m. m \<in> reachable W root \<and> (m, m) \<in> (import_edges W)\<^sup>+)"

text \<open>A registration whose path begins with a slash.\<close>

fun slash_route :: "facade_call \<Rightarrow> bool" where
  "slash_route (Route verb p aComponent name) = (take 1 p = ''/'')"
| "slash_route (Use parser) = False"
| "slash_route (Listen p) = False"

section \<open>Example programs\<close>

text \<open>A module with the empty path, no exports and no imports.\<close>

definition bare_world :: world where
  "bare_world =
     \<lparr>texts = [(''BareModule'', ''path'', None) \<mapsto> []],
      class_lists = [(''BareModule'', ''exports'', None) \<mapsto> [], (''BareModule'', ''imports'', None) \<mapsto> []],
      own_names = (\<lambda>c. [''constructor''])\<rparr>"

text \<open>
  A module with path \<open>root\<close> exporting a component whose method \<open>getStuff\<close> has the verb
  \<open>get\<close> and the sub-path \<open>stuff\<close>.
\<close>

definition stuff_world :: world where
  "stuff_world =
     \<lparr>texts = [(''AppModule'', ''path'', None) \<mapsto> ''root'',
               (''StuffComponent'', ''method'', Some ''getStuff'') \<mapsto> ''get'',
               (''StuffComponent'', ''path'', Some ''getStuff'') \<mapsto> ''stuff''],
      class_lists = [(''AppModule'', ''exports'', None) \<mapsto> [''StuffComponent'']],
      own_names = (\<lambda>c. if c = ''StuffComponent'' then [''constructor'', ''getStuff'']
                        else [''constructor''])\<rparr>"

text \<open>
  A root module with path \<open>x\<close> exporting component \<open>A\<close> and importing two child modules:
  the first, with no path, exports \<open>B\<close>; the second, with path \<open>v2\<close>, exports \<open>A\<close> again.
  Both components have one route method \<open>index\<close> with verb \<open>get\<close> and no sub-path, and
  \<open>B\<close> has a helper method without metadata.
\<close>

definition tree_world :: world where
  "tree_world =
     \<lparr>texts = [(''RootModule'', ''path'', None) \<mapsto> ''x'',
               (''SecondModule'', ''path'', None) \<mapsto> ''v2'',
               (''A'', ''method'', Some ''index'') \<mapsto> ''get'',
               (''B'', ''method'', Some ''index'') \<mapsto> ''get''],
      class_lists = [(''RootModule'', ''exports'', None) \<mapsto> [''A''],
               (''RootModule'', ''imports'', None) \<mapsto> [''FirstModule'', ''SecondModule''],
               (''FirstModule'', ''exports'', None) \<mapsto> [''B''],
               (''SecondModule'', ''exports'', None) \<mapsto> [''A'']],
      own_names = (\<lambda>c. if c = ''B'' then [''constructor'', ''index'', ''helper'']
                        else [''constructor'', ''index''])\<rparr>"

text \<open>A module that imports itself.\<close>

definition loop_world :: world where
  "loop_world =
     \<lparr>texts = Map.empty,
      class_lists = [(''LoopModule'', ''imports'', None) \<mapsto> [''LoopModule'']],
      own_names = (\<lambda>c. [''constructor''])\<rparr>"

text \<open>
  A component whose method \<open>getStuff\<close> carries the response metadata \<open>produces\<close>, and
  a method body that throws when it finds that metadata on the response it is given.
\<close>

definition produces_world :: world where
  "produces_world =
     \<lparr>texts = [(''StuffComponent'', ''method'', Some ''getStuff'') \<mapsto> ''get'',
               (''StuffComponent'', ''produces'', Some ''getStuff'') \<mapsto> ''text/plain''],
      class_lists = Map.empty,
      own_names = (\<lambda>c. [''constructor'', ''getStuff''])\<rparr>"

definition failing_invoke :: "class_id \<Rightarrow> string \<Rightarrow> string \<Rightarrow> string HttpResponse \<Rightarrow> string + unit" where
  "failing_invoke aComponent name req res =
     (if meta res ''produces'' = Some ''text/plain'' then Inl (''cannot serve '' @ req) else Inr ())"

section \<open>Path joining\<close>

lemma filter_truthy_kept: "filter truthy ps = map Str (kept_segments ps)"
  by (induction ps rule: kept_segments.induct) simp_all

lemma js_join_slash: "js_join ''/'' (map Str ss) = slash_joined ss"
  by (induction ss rule: slash_joined.induct) simp_all

lemma getPath_kept: "getPath parts = slash_joined (kept_segments parts)"
  by (simp add: getPath_def filter_truthy_kept js_join_slash)

text \<open>
  C2. For every sequence of path segments, \<open>getPath\<close> drops the empty, null and undefined
  entries and joins the remaining ones with a slash in their order; on
  \<open>['', 'a', '', 'b']\<close> it is \<open>a/b\<close> and on the empty sequence it is the empty string.
\<close>

theorem getPath_drops_and_joins:
  "getPath parts = slash_joined (kept_segments parts)
   \<and> getPath [Str [], Str ''a'', Str [], Str ''b''] = ''a/b''
   \<and> getPath [] = []"
  by (simp add: getPath_def filter_truthy_kept js_join_slash)

lemma kept_segments_append: "kept_segments (ps @ qs) = kept_segments ps @ kept_segments qs"
  by (induction ps rule: kept_segments.induct) simp_all

lemma kept_segments_nonempty: "s \<in> set (kept_segments ps) \<Longrightarrow> s \<noteq> []"
  by (induction ps rule: kept_segments.induct) (auto split: if_splits)

lemma slash_joined_Cons:
  "slash_joined (s # ss) = (if ss = [] then s else s @ ''/'' @ slash_joined ss)"
  by (cases ss) simp_all

lemma slash_joined_empty:
  assumes "\<And>s. s \<in> set ss \<Longrightarrow> s \<noteq> []"
  shows "(slash_joined ss = []) = (ss = [])"
proof (cases ss)
  case Nil
  then show ?thesis by simp
next
  case (Cons s rest)
  then have "s \<noteq> []" using assms by simp
  then show ?thesis using Cons by (simp add: slash_joined_Cons)
qed

lemma slash_joined_append:
  "ss \<noteq> [] \<Longrightarrow> ts \<noteq> [] \<Longrightarrow> slash_joined (ss @ ts) = slash_joined ss @ ''/'' @ slash_joined ts"
proof (induction ss)
  case Nil
  then show ?case by simp
next
  case (Cons s ss)
  show ?case
  proof (cases "ss = []")
    case True
    then show ?thesis using Cons.prems(2) by (simp add: slash_joined_Cons)
  next
    case False
    then show ?thesis using Cons.IH Cons.prems(2) by (simp add: slash_joined_Cons)
  qed
qed

lemma getPath_Cons_Str:
  "getPath (Str s # ps) = (if s = [] then getPath ps else slash_joined (s # kept_segments ps))"
  by (simp add: getPath_kept)

lemma getPath_append:
  "getPath (ps @ qs) =
     (if kept_segments ps = [] then getPath qs
      else if kept_segments qs = [] then getPath ps
      else getPath ps @ ''/'' @ getPath qs)"
  by (simp add: getPath_kept kept_segments_append slash_joined_append)

lemma getPath_empty: "(getPath ps = []) = (kept_segments ps = [])"
  unfolding getPath_kept by (rule slash_joined_empty) (rule kept_segments_nonempty)

lemma getPath_prefix:
  "getPath [Str (getPath segments), q] = getPath (segments @ [q])"
proof (cases "kept_segments segments = []")
  case True
  then have e: "getPath segments = []" by (simp add: getPath_empty)
  have "getPath [Str (getPath segments), q] = getPath [q]"
    unfolding e by (simp add: getPath_Cons_Str)
  also have "\<dots> = getPath (segments @ [q])"
    unfolding getPath_append using True by simp
  finally show ?thesis .
next
  case False
  then have ne: "getPath segments \<noteq> []" by (simp add: getPath_empty)
  have l: "getPath [Str (getPath segments), q] = slash_joined (getPath segments # kept_segments [q])"
    unfolding getPath_Cons_Str using ne by simp
  show ?thesis
  proof (cases "kept_segments [q] = []")
    case True
    have "slash_joined (getPath segments # kept_segments [q]) = getPath segments"
      unfolding True by simp
    also have "\<dots> = getPath (segments @ [q])"
      unfolding getPath_append using False True by simp
    finally show ?thesis using l by simp
  next
    case qne: False
    have "slash_joined (getPath segments # kept_segments [q]) = getPath segments @ ''/'' @ getPath [q]"
      unfolding slash_joined_Cons getPath_kept using qne by simp
    also have "\<dots> = getPath (segments @ [q])"
      unfolding getPath_append using False qne by simp
    finally show ?thesis using l by simp
  qed
qed

section \<open>The calls a walk adds\<close>

lemma addRouteFromMethod_append:
  "addRouteFromMethod W c m p calls = calls @ addRouteFromMethod W c m p []"
  by (simp add: addRouteFromMethod_def addRoute_def Let_def)

lemma fold_methods_append:
  "fold (\<lambda>method b. addRouteFromMethod W c method p b) ms calls
   = calls @ fold (\<lambda>method b. addRouteFromMethod W c method p b) ms []"
proof (induction ms arbitrary: calls)
  case Nil
  show ?case by simp
next
  case (Cons m ms)
  have "fold (\<lambda>method b. addRouteFromMethod W c method p b) (m # ms) calls
        = fold (\<lambda>method b. addRouteFromMethod W c method p b) ms (calls @ addRouteFromMethod W c m p [])"
    using addRouteFromMethod_append [of W c m p calls] by simp
  also have "\<dots> = (calls @ addRouteFromMethod W c m p [])
        @ fold (\<lambda>method b. addRouteFromMethod W c method p b) ms []"
    by (rule Cons.IH)
  also have "\<dots> = calls @ fold (\<lambda>method b. addRouteFromMethod W c method p b) (m # ms) []"
    using Cons.IH [of "addRouteFromMethod W c m p []"] by simp
  finally show ?case .
qed

lemma addExportedComponents_Nil: "addExportedComponents W p [] calls = calls"
  by (simp add: addExportedComponents_def)

lemma addExportedComponents_Cons:
  "addExportedComponents W p (c # cs) calls
   = addExportedComponents W p cs
       (fold (\<lambda>method b. addRouteFromMethod W c method p b) (getMethodList W c) calls)"
  by (simp add: addExportedComponents_def)

lemma addExportedComponents_append:
  "addExportedComponents W p cs calls = calls @ addExportedComponents W p cs []"
proof (induction cs arbitrary: calls)
  case Nil
  show ?case by (simp add: addExportedComponents_Nil)
next
  case (Cons c cs)
  show ?case
    using Cons.IH [of "fold (\<lambda>method b. addRouteFromMethod W c method p b) (getMethodList W c) calls"]
      Cons.IH [of "fold (\<lambda>method b. addRouteFromMethod W c method p b) (getMethodList W c) []"]
      fold_methods_append [of W c p "getMethodList W c" calls]
    by (simp add: addExportedComponents_Cons)
qed

lemma unpack_each_append_from:
  assumes "\<And>m inh calls. unpack n W m inh calls = map_option ((@) calls) (unpack n W m inh [])"
  shows "unpack_each n W ms inh calls = map_option ((@) calls) (unpack_each n W ms inh [])"
proof (induction ms arbitrary: calls)
  case Nil
  show ?case by simp
next
  case (Cons Child rest)
  show ?case
  proof (cases "unpack n W Child inh []")
    case None
    then show ?thesis using assms [of Child inh calls] by simp
  next
    case (Some t)
    then have a: "unpack n W Child inh calls = Some (calls @ t)"
      using assms [of Child inh calls] by simp
    show ?thesis
      using a Some Cons.IH [of "calls @ t"] Cons.IH [of t]
      by (simp add: option.map_comp comp_def)
  qed
qed

lemma unpack_Suc:
  "unpack (Suc n) W m inh calls =
     unpack_each n W (as_list (Injector_get (class_lists W) m ''imports'' (Some []) None))
       (getPath [Str inh, as_part (Injector_get (texts W) m ''path'' (Some []) None)])
       (addExportedComponents W
          (getPath [Str inh, as_part (Injector_get (texts W) m ''path'' (Some []) None)])
          (as_list (Injector_get (class_lists W) m ''exports'' (Some []) None)) calls)"
  by (simp add: Let_def)

lemma unpack_append:
  "unpack n W m inh calls = map_option ((@) calls) (unpack n W m inh [])"
proof (induction n arbitrary: m inh calls)
  case 0
  show ?case by simp
next
  case (Suc n)
  define p where "p = getPath [Str inh, as_part (Injector_get (texts W) m ''path'' (Some []) None)]"
  define im where "im = as_list (Injector_get (class_lists W) m ''imports'' (Some []) None)"
  define ex where "ex = addExportedComponents W p (as_list (Injector_get (class_lists W) m ''exports'' (Some []) None)) []"
  have l: "unpack (Suc n) W m inh calls = map_option ((@) (calls @ ex)) (unpack_each n W im p [])"
    unfolding unpack_Suc p_def [symmetric] im_def [symmetric]
    using addExportedComponents_append [of W p _ calls] unpack_each_append_from [OF Suc.IH, of im p "calls @ ex"]
    by (simp add: ex_def)
  have r: "unpack (Suc n) W m inh [] = map_option ((@) ex) (unpack_each n W im p [])"
    unfolding unpack_Suc p_def [symmetric] im_def [symmetric]
    using unpack_each_append_from [OF Suc.IH, of im p ex]
    by (simp add: ex_def)
  show ?case unfolding l r by (cases "unpack_each n W im p []") simp_all
qed

lemma unpack_each_append:
  "unpack_each n W ms inh calls = map_option ((@) calls) (unpack_each n W ms inh [])"
  by (rule unpack_each_append_from) (rule unpack_append)


lemma unpack_each_mono_from:
  assumes "\<And>m inh calls r. unpack n W m inh calls = Some r \<Longrightarrow> unpack n' W m inh calls = Some r"
  shows "unpack_each n W ms inh calls = Some r \<Longrightarrow> unpack_each n' W ms inh calls = Some r"
proof (induction ms arbitrary: calls)
  case Nil
  then show ?case by simp
next
  case (Cons Child rest)
  from Cons.prems obtain t where t: "unpack n W Child inh calls = Some t"
    and rest: "unpack_each n W rest inh t = Some r"
    by (auto split: option.splits)
  show ?case using assms [OF t] Cons.IH [OF rest] by simp
qed

lemma unpack_Suc_mono:
  "unpack n W m inh calls = Some r \<Longrightarrow> unpack (Suc n) W m inh calls = Some r"
proof (induction n arbitrary: m inh calls r)
  case 0
  then show ?case by simp
next
  case (Suc n)
  have "unpack_each n W ms p c = Some r \<Longrightarrow> unpack_each (Suc n) W ms p c = Some r" for ms p c
    by (rule unpack_each_mono_from [of n W "Suc n"]) (rule Suc.IH)
  then show ?case using Suc.prems unfolding unpack_Suc [of "Suc n"] unpack_Suc [of n] by blast
qed

lemma unpack_mono:
  "unpack n W m inh calls = Some r \<Longrightarrow> n \<le> n' \<Longrightarrow> unpack n' W m inh calls = Some r"
proof (induction n' )
  case 0
  then show ?case by simp
next
  case (Suc n')
  show ?case
  proof (cases "n = Suc n'")
    case True
    then show ?thesis using Suc.prems by simp
  next
    case False
    then have "n \<le> n'" using Suc.prems by simp
    then show ?thesis using Suc.IH Suc.prems(1) unpack_Suc_mono by blast
  qed
qed

lemma unpack_each_mono:
  "unpack_each n W ms inh calls = Some r \<Longrightarrow> n \<le> n' \<Longrightarrow> unpack_each n' W ms inh calls = Some r"
  using unpack_each_mono_from [of n W n' ms inh calls r] unpack_mono [of n W _ _ _ _ n'] by blast

lemma unpack_fuel_irrelevant:
  "unpack n W m inh calls = Some r \<Longrightarrow> unpack n' W m inh calls = Some r' \<Longrightarrow> r = r'"
  using unpack_mono [of n W m inh calls r "max n n'"] unpack_mono [of n' W m inh calls r' "max n n'"]
  by simp

section \<open>Joined prefixes and segment lists\<close>

lemma spec_full_path_getPath: "spec_full_path segments = ''/'' @ getPath segments"
  by (simp add: spec_full_path_def getPath_kept)

lemma method_route_refines:
  "addRouteFromMethod W c m (getPath segments) calls = spec_method_route W segments c m calls"
  by (simp add: addRouteFromMethod_def spec_method_route_def addRoute_def Let_def
      Injector_resolve_def getPath_prefix spec_full_path_getPath)

lemma component_routes_refine:
  "addExportedComponents W (getPath segments) cs calls = spec_component_routes W segments cs calls"
  by (simp add: addExportedComponents_def spec_component_routes_def method_route_refines)

lemma unpack_each_refines_from:
  assumes "\<And>m segments calls. unpack n W m (getPath segments) calls = spec_unpack n W m segments calls"
  shows "unpack_each n W ms (getPath segments) calls = spec_unpack_each n W ms segments calls"
  by (induction ms arbitrary: calls) (simp_all add: assms split: option.splits)

lemma unpack_refines:
  "unpack n W m (getPath segments) calls = spec_unpack n W m segments calls"
proof (induction n arbitrary: m segments calls)
  case 0
  show ?case by simp
next
  case (Suc n)
  show ?case
    unfolding unpack_Suc
    by (simp add: Let_def getPath_prefix component_routes_refine unpack_each_refines_from [OF Suc.IH])
qed

section \<open>The order of a walk\<close>

lemma methods_flat:
  "fold (\<lambda>method b. addRouteFromMethod W c method p b) ms [] =
     concat (map (\<lambda>method. addRouteFromMethod W c method p []) ms)"
proof (induction ms)
  case Nil
  show ?case by simp
next
  case (Cons m ms)
  have "fold (\<lambda>method b. addRouteFromMethod W c method p b) (m # ms) []
        = fold (\<lambda>method b. addRouteFromMethod W c method p b) ms (addRouteFromMethod W c m p [])"
    by simp
  also have "\<dots> = addRouteFromMethod W c m p []
        @ fold (\<lambda>method b. addRouteFromMethod W c method p b) ms []"
    by (rule fold_methods_append)
  finally show ?case using Cons.IH by simp
qed

lemma exported_flat:
  "addExportedComponents W p cs [] =
     concat (map (\<lambda>Component. concat (map (\<lambda>method. addRouteFromMethod W Component method p [])
                                            (getMethodList W Component))) cs)"
proof (induction cs)
  case Nil
  show ?case by (simp add: addExportedComponents_Nil)
next
  case (Cons c cs)
  have "addExportedComponents W p (c # cs) []
        = addExportedComponents W p cs
            (fold (\<lambda>method b. addRouteFromMethod W c method p b) (getMethodList W c) [])"
    by (rule addExportedComponents_Cons)
  also have "\<dots> = fold (\<lambda>method b. addRouteFromMethod W c method p b) (getMethodList W c) []
        @ addExportedComponents W p cs []"
    by (rule addExportedComponents_append)
  finally show ?case using Cons.IH by (simp add: methods_flat)
qed

lemma unpack_each_trace:
  "(unpack_each n W ms p calls = Some result) =
     (\<exists>children. list_all2 (\<lambda>Child t. unpack n W Child p [] = Some t) ms children
        \<and> result = calls @ concat children)"
proof (induction ms arbitrary: calls)
  case Nil
  show ?case by auto
next
  case (Cons Child rest)
  show ?case
  proof (cases "unpack n W Child p []")
    case None
    then have "unpack n W Child p calls = None" using unpack_append [of n W Child p calls] by simp
    then show ?thesis using None by (auto simp: list_all2_Cons1)
  next
    case (Some t)
    then have a: "unpack n W Child p calls = Some (calls @ t)"
      using unpack_append [of n W Child p calls] by simp
    show ?thesis using a Some Cons.IH [of "calls @ t"]
      by (auto simp: list_all2_Cons1)
  qed
qed

lemma unpack_Suc_trace:
  "(unpack (Suc n) W Parent inputPath calls = Some result) =
     (\<exists>children.
        list_all2 (\<lambda>Child t. unpack n W Child
             (getPath [Str inputPath, as_part (Injector_get (texts W) Parent ''path'' (Some []) None)]) []
             = Some t)
          (as_list (Injector_get (class_lists W) Parent ''imports'' (Some []) None)) children
        \<and> result = calls
            @ addExportedComponents W
                (getPath [Str inputPath, as_part (Injector_get (texts W) Parent ''path'' (Some []) None)])
                (as_list (Injector_get (class_lists W) Parent ''exports'' (Some []) None)) []
            @ concat children)"
  unfolding unpack_Suc unpack_each_trace
  using addExportedComponents_append [of W _ _ calls] by simp

text \<open>
  C1. A call of \<open>unpack\<close> on a module with an inherited prefix returns exactly when the
  walks of its imports return, and then what it has added to the application is, in this
  order: the routes of every component of the exports of the module, component by
  component and method by method, each registered at \<open>currentPath\<close>, the join of the
  inherited prefix with the path of the module; then what the walk of each import adds,
  in the order the imports are declared, each walk started with \<open>currentPath\<close> as its
  inherited prefix.
\<close>

theorem unpack_exports_then_imports:
  "(unpack (Suc n) W Parent inputPath calls = Some result) =
     (let currentPath = getPath [Str inputPath, as_part (Injector_get (texts W) Parent ''path'' (Some []) None)];
          exports = as_list (Injector_get (class_lists W) Parent ''exports'' (Some []) None);
          imports = as_list (Injector_get (class_lists W) Parent ''imports'' (Some []) None)
      in \<exists>children.
           list_all2 (\<lambda>Child t. unpack n W Child currentPath [] = Some t) imports children
           \<and> result = calls
               @ concat (map (\<lambda>Component.
                    concat (map (\<lambda>method. addRouteFromMethod W Component method currentPath [])
                              (getMethodList W Component))) exports)
               @ concat children)"
  unfolding Let_def unpack_Suc_trace exported_flat by (rule refl)

lemma tree_world_run:
  "unpack (Suc (Suc 0)) tree_world ''RootModule'' [] [] =
     Some [Route ''get'' ''/x'' ''A'' ''index'', Route ''get'' ''/x'' ''B'' ''index'',
           Route ''get'' ''/x/v2'' ''A'' ''index'']"
  by (simp add: tree_world_def Injector_get_def addExportedComponents_def getMethodList_def
      addRouteFromMethod_def addRoute_def getPath_def Injector_resolve_def Let_def)

theorem unpack_exports_then_imports_witness:
  "unpack (Suc (Suc 0)) tree_world ''RootModule'' [] [] =
     Some [Route ''get'' ''/x'' ''A'' ''index'', Route ''get'' ''/x'' ''B'' ''index'',
           Route ''get'' ''/x/v2'' ''A'' ''index'']
   \<and> (\<exists>children.
        list_all2 (\<lambda>Child t. unpack (Suc 0) tree_world Child ''x'' [] = Some t)
          [''FirstModule'', ''SecondModule''] children
        \<and> [Route ''get'' ''/x'' ''A'' ''index'', Route ''get'' ''/x'' ''B'' ''index'',
            Route ''get'' ''/x/v2'' ''A'' ''index'']
           = [] @ [Route ''get'' ''/x'' ''A'' ''index''] @ concat children)"
proof -
  have run: "unpack (Suc (Suc 0)) tree_world ''RootModule'' [] [] =
     Some [Route ''get'' ''/x'' ''A'' ''index'', Route ''get'' ''/x'' ''B'' ''index'',
           Route ''get'' ''/x/v2'' ''A'' ''index'']"
    by (rule tree_world_run)
  have "\<exists>children.
        list_all2 (\<lambda>Child t. unpack (Suc 0) tree_world Child ''x'' [] = Some t)
          [''FirstModule'', ''SecondModule''] children
        \<and> [Route ''get'' ''/x'' ''A'' ''index'', Route ''get'' ''/x'' ''B'' ''index'',
            Route ''get'' ''/x/v2'' ''A'' ''index'']
           = [] @ [Route ''get'' ''/x'' ''A'' ''index''] @ concat children"
    using unpack_exports_then_imports [of "Suc 0" tree_world "''RootModule''" "[]" "[]", THEN iffD1, OF run]
    by (simp add: tree_world_def Injector_get_def getMethodList_def
      addRouteFromMethod_def addRoute_def getPath_def Injector_resolve_def Let_def)
  with run show ?thesis by (rule conjI)
qed

section \<open>Metadata resolution\<close>

text \<open>
  C5. The lookup resolves in this order: the record of the exact method scope, else the
  class-scope record of the key, else the supplied default, else an absent result. With a
  class-scope record \<open>v1\<close> and a record \<open>v2\<close> at the scope of method \<open>m\<close>, the lookup at
  \<open>m\<close> gives \<open>v2\<close>, the lookup at any other method gives \<open>v1\<close>, and with no record at
  all the lookup gives the default.
\<close>

theorem Injector_get_resolution_order:
  "(M (target, k, Some m) = Some v2 \<longrightarrow> Injector_get M target k dflt (Some m) = Some v2)
   \<and> (M (target, k, Some m) = None \<and> M (target, k, None) = Some v1
        \<longrightarrow> Injector_get M target k dflt (Some m) = Some v1)
   \<and> (M (target, k, Some m) = None \<and> M (target, k, None) = None
        \<longrightarrow> Injector_get M target k dflt (Some m) = dflt)
   \<and> (M (target, k, None) = Some v1 \<longrightarrow> Injector_get M target k dflt None = Some v1)
   \<and> (M (target, k, None) = None \<longrightarrow> Injector_get M target k dflt None = dflt)
   \<and> Injector_get [(target, k, None) \<mapsto> v1, (target, k, Some m) \<mapsto> v2] target k (Some d) (Some m) = Some v2
   \<and> (other \<noteq> m \<longrightarrow>
        Injector_get [(target, k, None) \<mapsto> v1, (target, k, Some m) \<mapsto> v2] target k (Some d) (Some other) = Some v1)
   \<and> Injector_get Map.empty target k (Some d) None = Some d
   \<and> Injector_get Map.empty target k None None = None"
  by (simp add: Injector_get_def)

theorem Injector_get_resolution_order_witness:
  "Injector_get [(''C'', ''key'', None) \<mapsto> ''v1'', (''C'', ''key'', Some ''m'') \<mapsto> ''v2'']
      ''C'' ''key'' (Some ''d'') (Some ''m'') = Some ''v2''
   \<and> Injector_get [(''C'', ''key'', None) \<mapsto> ''v1'', (''C'', ''key'', Some ''m'') \<mapsto> ''v2'']
        ''C'' ''key'' (Some ''d'') (Some ''other'') = Some ''v1''
   \<and> Injector_get [(''C'', ''key'', None) \<mapsto> ''v1'', (''C'', ''key'', Some ''m'') \<mapsto> ''v2'']
        ''C'' ''key'' (Some ''d'') None = Some ''v1''
   \<and> Injector_get [(''C'', ''key'', None) \<mapsto> ''v1'', (''C'', ''key'', Some ''m'') \<mapsto> ''v2'']
        ''D'' ''key'' (Some ''d'') (Some ''m'') = Some ''d''
   \<and> Injector_get [(''C'', ''key'', None) \<mapsto> ''v1'', (''C'', ''key'', Some ''m'') \<mapsto> ''v2'']
        ''D'' ''key'' (Some ''d'') None = Some ''d''"
  using
    Injector_get_resolution_order
    [where M = "[(''C'', ''key'', None) \<mapsto> ''v1'', (''C'', ''key'', Some ''m'') \<mapsto> ''v2'']"
       and target = "''C''" and k = "''key''" and m = "''m''" and ?v2.0 = "''v2''"
       and ?v1.0 = "''v1''" and dflt = "Some ''d''" and other = "''other''" and d = "''d''"]
    Injector_get_resolution_order
    [where M = "[(''C'', ''key'', None) \<mapsto> ''v1'', (''C'', ''key'', Some ''m'') \<mapsto> ''v2'']"
       and target = "''C''" and k = "''key''" and m = "''other''" and ?v2.0 = "''v2''"
       and ?v1.0 = "''v1''" and dflt = "Some ''d''" and other = "''x''" and d = "''d''"]
    Injector_get_resolution_order
    [where M = "[(''C'', ''key'', None) \<mapsto> ''v1'', (''C'', ''key'', Some ''m'') \<mapsto> ''v2'']"
       and target = "''D''" and k = "''key''" and m = "''m''" and ?v2.0 = "''v2''"
       and ?v1.0 = "''v1''" and dflt = "Some ''d''" and other = "''x''" and d = "''d''"]
  by (simp add: Injector_get_def)

section \<open>Eligibility of a method\<close>

text \<open>
  What \<open>addRouteFromMethod\<close> itself decides: it registers nothing when the result of the
  verb lookup, made with the method as scope and \<open>null\<close> as default, is falsy. Which
  records make that result falsy is a matter of the lookup, not of the compiler.
\<close>

lemma falsy_verb_skips:
  "\<not> truthy (as_part (Injector_get (texts W) (Injector_resolve Component) ''method'' None (Some method)))
   \<Longrightarrow> addRouteFromMethod W Component method path calls = calls"
  by (simp add: addRouteFromMethod_def Let_def)

section \<open>Full paths\<close>

text \<open>
  C6. The walk from the root registers every eligible method at a slash followed by the
  slash-joined non-empty segments from the root module down to the sub-path of the
  method, root first: it adds the same calls as the walk that hands the segment list
  down. A method with verb \<open>get\<close> and sub-path \<open>stuff\<close> exported from a module with path
  \<open>root\<close> is registered as \<open>GET /root/stuff\<close>.
\<close>

theorem full_path_from_root:
  "unpack n W root [] calls = spec_unpack n W root [] calls
   \<and> unpack (Suc 0) stuff_world ''AppModule'' [] []
       = Some [Route ''get'' ''/root/stuff'' ''StuffComponent'' ''getStuff'']"
proof
  show "unpack n W root [] calls = spec_unpack n W root [] calls"
    using unpack_refines [of n W root "[]" calls] by (simp add: getPath_def)
  show "unpack (Suc 0) stuff_world ''AppModule'' [] []
       = Some [Route ''get'' ''/root/stuff'' ''StuffComponent'' ''getStuff'']"
    by (simp add: stuff_world_def Injector_get_def addExportedComponents_def getMethodList_def
      addRouteFromMethod_def addRoute_def getPath_def Injector_resolve_def Let_def)
qed

section \<open>The handler\<close>

text \<open>
  C8. Invoked with a request and a raw response, the handler of a component and a method
  name looks up all the metadata of that method with the bulk lookup, builds the
  decorated response from the raw response and that metadata, and calls the method with
  the request and the decorated response. Whatever the method throws is what the handler
  throws.
\<close>

theorem getHandler_delegates:
  "getHandler W invoke aComponent name req res
     = invoke aComponent name req (new_HttpResponse res (Injector_getAll (texts W) aComponent name))
   \<and> (invoke aComponent name req (new_HttpResponse res (Injector_getAll (texts W) aComponent name)) = Inl e
        \<longrightarrow> getHandler W invoke aComponent name req res = Inl e)"
  by (simp add: getHandler_def Let_def)

theorem getHandler_delegates_witness:
  "failing_invoke ''StuffComponent'' ''getStuff'' ''request''
      (new_HttpResponse ''response'' (Injector_getAll (texts produces_world) ''StuffComponent'' ''getStuff''))
     = Inl ''cannot serve request''
   \<and> getHandler produces_world failing_invoke ''StuffComponent'' ''getStuff'' ''request'' ''response''
     = Inl ''cannot serve request''"
proof -
  have a: "failing_invoke ''StuffComponent'' ''getStuff'' ''request''
      (new_HttpResponse ''response'' (Injector_getAll (texts produces_world) ''StuffComponent'' ''getStuff''))
     = Inl ''cannot serve request''"
    by (simp add: failing_invoke_def new_HttpResponse_def Injector_getAll_def produces_world_def)
  show ?thesis
    using a getHandler_delegates [of produces_world failing_invoke "''StuffComponent''" "''getStuff''"
        "''request''" "''response''" "''cannot serve request''"]
    by simp
qed


section \<open>Leading slashes\<close>

lemma slash_addRouteFromMethod: "r \<in> set (addRouteFromMethod W c m p []) \<Longrightarrow> slash_route r"
  by (auto simp: addRouteFromMethod_def addRoute_def Let_def split: if_splits)

lemma slash_exports: "r \<in> set (addExportedComponents W p cs []) \<Longrightarrow> slash_route r"
  unfolding exported_flat by (auto dest: slash_addRouteFromMethod)

lemma slash_children:
  assumes "list_all2 (\<lambda>Child t. unpack n W Child p [] = Some t) ms children"
    and "\<And>m inh t r. unpack n W m inh [] = Some t \<Longrightarrow> r \<in> set t \<Longrightarrow> slash_route r"
    and "r \<in> set (concat children)"
  shows "slash_route r"
proof -
  from assms(3) obtain t where t: "t \<in> set children" and r: "r \<in> set t" by auto
  from t obtain i where i: "i < length children" and ti: "children ! i = t"
    by (auto simp: in_set_conv_nth)
  from assms(1) i have "unpack n W (ms ! i) p [] = Some (children ! i)"
    by (simp add: list_all2_conv_all_nth)
  then show ?thesis using assms(2) r ti by blast
qed

lemma slash_unpack:
  "unpack n W m inh [] = Some t \<Longrightarrow> r \<in> set t \<Longrightarrow> slash_route r"
proof (induction n arbitrary: m inh t r)
  case 0
  then show ?case by simp
next
  case (Suc n)
  from Suc.prems(1) obtain children where
    ch: "list_all2 (\<lambda>Child t. unpack n W Child
             (getPath [Str inh, as_part (Injector_get (texts W) m ''path'' (Some []) None)]) []
             = Some t)
          (as_list (Injector_get (class_lists W) m ''imports'' (Some []) None)) children"
    and t: "t = [] @ addExportedComponents W
                (getPath [Str inh, as_part (Injector_get (texts W) m ''path'' (Some []) None)])
                (as_list (Injector_get (class_lists W) m ''exports'' (Some []) None)) []
            @ concat children"
    unfolding unpack_Suc_trace by blast
  from Suc.prems(2) t consider
    "r \<in> set (addExportedComponents W
                (getPath [Str inh, as_part (Injector_get (texts W) m ''path'' (Some []) None)])
                (as_list (Injector_get (class_lists W) m ''exports'' (Some []) None)) [])"
    | "r \<in> set (concat children)"
    by auto
  then show ?case
  proof cases
    case 1
    then show ?thesis by (rule slash_exports)
  next
    case 2
    show ?thesis by (rule slash_children [OF ch Suc.IH 2])
  qed
qed

lemma slash_is_route: "slash_route r \<Longrightarrow> is_route r"
  by (cases r) simp_all

lemma unpack_added:
  "unpack n W m inh calls = Some result \<Longrightarrow>
     \<exists>added. unpack n W m inh [] = Some added \<and> result = calls @ added"
  using unpack_append [of n W m inh calls] by (cases "unpack n W m inh []") simp_all

lemma getPath_all_falsy: "(\<And>s. s \<in> set segments \<Longrightarrow> \<not> truthy s) \<Longrightarrow> getPath segments = []"
  unfolding getPath_def by (simp add: filter_empty_conv [THEN iffD2])

text \<open>
  C10. Every call a walk adds to the application is a route registration whose path
  begins with a slash: \<open>addRoute\<close> puts a slash before the joined path, whatever it is. An
  eligible method whose module paths and sub-path are all empty or absent is registered
  at the path that is exactly one slash.
\<close>

theorem routes_begin_with_slash:
  "(unpack n W Parent inputPath calls = Some result \<longrightarrow>
      (\<exists>added. result = calls @ added \<and> (\<forall>r \<in> set added. slash_route r)))
   \<and> addRoute verb path aComponent name calls = calls @ [Route verb (''/'' @ path) aComponent name]
   \<and> (truthy (as_part (Injector_get (texts W) Component ''method'' None (Some method)))
        \<and> (\<forall>s \<in> set segments. \<not> truthy s)
        \<and> \<not> truthy (as_part (Injector_get (texts W) Component ''path'' None (Some method)))
      \<longrightarrow> addRouteFromMethod W Component method (getPath segments) calls
            = calls @ [Route (text_of (as_part (Injector_get (texts W) Component ''method'' None (Some method))))
                         ''/'' Component method])"
proof (intro conjI impI)
  assume "unpack n W Parent inputPath calls = Some result"
  then obtain added where a: "unpack n W Parent inputPath [] = Some added" and r: "result = calls @ added"
    using unpack_added by blast
  have "\<forall>r \<in> set added. slash_route r" using slash_unpack [OF a] by blast
  with r show "\<exists>added. result = calls @ added \<and> (\<forall>r \<in> set added. slash_route r)" by blast
next
  show "addRoute verb path aComponent name calls = calls @ [Route verb (''/'' @ path) aComponent name]"
    by (simp add: addRoute_def)
next
  assume h: "truthy (as_part (Injector_get (texts W) Component ''method'' None (Some method)))
        \<and> (\<forall>s \<in> set segments. \<not> truthy s)
        \<and> \<not> truthy (as_part (Injector_get (texts W) Component ''path'' None (Some method)))"
  then have e: "getPath segments = []" using getPath_all_falsy [of segments] by blast
  have "getPath [Str [], as_part (Injector_get (texts W) Component ''path'' None (Some method))] = []"
    using h by (simp add: getPath_def)
  then show "addRouteFromMethod W Component method (getPath segments) calls
            = calls @ [Route (text_of (as_part (Injector_get (texts W) Component ''method'' None (Some method))))
                         ''/'' Component method]"
    using h unfolding e by (simp add: addRouteFromMethod_def addRoute_def Injector_resolve_def Let_def)
qed

theorem routes_begin_with_slash_witness:
  "unpack (Suc (Suc 0)) tree_world ''RootModule'' [] [] =
     Some [Route ''get'' ''/x'' ''A'' ''index'', Route ''get'' ''/x'' ''B'' ''index'',
           Route ''get'' ''/x/v2'' ''A'' ''index'']
   \<and> slash_route (Route ''get'' ''/x'' ''A'' ''index'')
   \<and> slash_route (Route ''get'' ''/x/v2'' ''A'' ''index'')
   \<and> addRouteFromMethod tree_world ''B'' ''index'' (getPath [Str [], Null, Undefined]) []
       = [Route ''get'' ''/'' ''B'' ''index'']"
proof -
  have h: "truthy (as_part (Injector_get (texts tree_world) ''B'' ''method'' None (Some ''index'')))
        \<and> (\<forall>s \<in> set [Str [], Null, Undefined]. \<not> truthy s)
        \<and> \<not> truthy (as_part (Injector_get (texts tree_world) ''B'' ''path'' None (Some ''index'')))"
    by (simp add: tree_world_def Injector_get_def)
  have v: "text_of (as_part (Injector_get (texts tree_world) ''B'' ''method'' None (Some ''index''))) = ''get''"
    by (simp add: tree_world_def Injector_get_def)
  note t = routes_begin_with_slash [of "Suc (Suc 0)" tree_world "''RootModule''" "[]" "[]"
        "[Route ''get'' ''/x'' ''A'' ''index'', Route ''get'' ''/x'' ''B'' ''index'',
           Route ''get'' ''/x/v2'' ''A'' ''index'']" "''get''" "''x''" "''A''" "''index''"
        "''B''" "''index''" "[Str [], Null, Undefined]"]
  have a: "addRouteFromMethod tree_world ''B'' ''index'' (getPath [Str [], Null, Undefined]) []
       = [Route ''get'' ''/'' ''B'' ''index'']"
    using t h v by simp
  have b: "slash_route (Route ''get'' ''/x'' ''A'' ''index'') \<and> slash_route (Route ''get'' ''/x/v2'' ''A'' ''index'')"
    using t tree_world_run by simp
  show ?thesis using a b tree_world_run by simp
qed

section \<open>bootstrap\<close>

lemma route_table_append: "route_table (xs @ ys) = route_table xs @ route_table ys"
  by (simp add: route_table_def)

lemma route_table_unpack:
  "unpack n W m inh [] = Some t \<Longrightarrow> route_table t = t"
  unfolding route_table_def using slash_unpack [of n W m inh t] slash_is_route
  by (simp add: filter_id_conv)

lemma bootstrap_Some:
  assumes "bootstrap n W env_port root p c = Some s"
  shows "\<exists>t. unpack n W root [] [] = Some t
           \<and> app s = app c @ [Use ''urlencoded'', Use ''json''] @ t @ [Listen (override_port env_port p)]
           \<and> server s = Some (override_port env_port p)"
proof -
  from assms obtain calls where
    u: "unpack n W root [] (app c @ [Use ''urlencoded'', Use ''json'']) = Some calls"
    and s: "s = (addParser c)\<lparr>app := calls @ [Listen (override_port env_port p)],
                              server := Some (override_port env_port p)\<rparr>"
    by (auto simp: bootstrap_def addParser_def Let_def split: option.splits)
  from unpack_added [OF u] obtain t where
    t: "unpack n W root [] [] = Some t" and c: "calls = (app c @ [Use ''urlencoded'', Use ''json'']) @ t"
    by blast
  show ?thesis using t c s by simp
qed

lemma bootstrap_route_table:
  assumes "bootstrap n W env_port root p c = Some s"
  shows "\<exists>t. unpack n W root [] [] = Some t \<and> route_table (app s) = route_table (app c) @ t"
proof -
  from bootstrap_Some [OF assms] obtain t where
    t: "unpack n W root [] [] = Some t"
    and a: "app s = app c @ [Use ''urlencoded'', Use ''json''] @ t @ [Listen (override_port env_port p)]"
    by blast
  have "route_table (app s) = route_table (app c) @ route_table t"
    unfolding a route_table_append by (simp add: route_table_def)
  then show ?thesis using t route_table_unpack [OF t] by simp
qed

text \<open>
  C9. Two runs of \<open>bootstrap\<close> on the same program and root module, started from the same
  state of the compiler, give the same route table, whatever the port, the environment
  and the depth the walk was allowed; and that table is the table of the starting state
  followed by the calls of the walk from the root.
\<close>

theorem bootstrap_route_table_deterministic:
  assumes "bootstrap n1 W env1 root port1 c = Some s1"
    and "bootstrap n2 W env2 root port2 c = Some s2"
  shows "route_table (app s1) = route_table (app s2)
         \<and> (\<exists>t. unpack n1 W root [] [] = Some t \<and> route_table (app s1) = route_table (app c) @ t)"
proof -
  from bootstrap_route_table [OF assms(1)] obtain t1 where
    t1: "unpack n1 W root [] [] = Some t1" and r1: "route_table (app s1) = route_table (app c) @ t1"
    by blast
  from bootstrap_route_table [OF assms(2)] obtain t2 where
    t2: "unpack n2 W root [] [] = Some t2" and r2: "route_table (app s2) = route_table (app c) @ t2"
    by blast
  have "t1 = t2" using t1 t2 by (rule unpack_fuel_irrelevant)
  then show ?thesis using r1 r2 t1 by simp
qed

lemma tree_world_bootstrap:
  "n = Suc (Suc 0) \<or> n = Suc (Suc (Suc 0)) \<Longrightarrow>
   bootstrap n tree_world env_port ''RootModule'' p fresh =
     Some \<lparr>app = [Use ''urlencoded'', Use ''json'',
                  Route ''get'' ''/x'' ''A'' ''index'', Route ''get'' ''/x'' ''B'' ''index'',
                  Route ''get'' ''/x/v2'' ''A'' ''index'', Listen (override_port env_port p)],
           server = Some (override_port env_port p)\<rparr>"
proof -
  assume n: "n = Suc (Suc 0) \<or> n = Suc (Suc (Suc 0))"
  have "unpack n tree_world ''RootModule'' [] [] =
     Some [Route ''get'' ''/x'' ''A'' ''index'', Route ''get'' ''/x'' ''B'' ''index'',
           Route ''get'' ''/x/v2'' ''A'' ''index'']"
    using n tree_world_run unpack_Suc_mono [OF tree_world_run] by auto
  then have "unpack n tree_world ''RootModule'' [] [Use ''urlencoded'', Use ''json''] =
     Some ([Use ''urlencoded'', Use ''json''] @ [Route ''get'' ''/x'' ''A'' ''index'', Route ''get'' ''/x'' ''B'' ''index'',
           Route ''get'' ''/x/v2'' ''A'' ''index''])"
    using unpack_append [of n tree_world "''RootModule''" "[]" "[Use ''urlencoded'', Use ''json'']"] by simp
  then show ?thesis by (simp add: bootstrap_def addParser_def fresh_def Let_def)
qed

theorem bootstrap_route_table_deterministic_witness:
  "bootstrap (Suc (Suc 0)) tree_world None ''RootModule'' (PortNumber 3000) fresh =
     Some \<lparr>app = [Use ''urlencoded'', Use ''json'',
                  Route ''get'' ''/x'' ''A'' ''index'', Route ''get'' ''/x'' ''B'' ''index'',
                  Route ''get'' ''/x/v2'' ''A'' ''index'', Listen (PortNumber 3000)],
           server = Some (PortNumber 3000)\<rparr>
   \<and> bootstrap (Suc (Suc (Suc 0))) tree_world (Some ''8080'') ''RootModule'' (PortNumber 80) fresh =
     Some \<lparr>app = [Use ''urlencoded'', Use ''json'',
                  Route ''get'' ''/x'' ''A'' ''index'', Route ''get'' ''/x'' ''B'' ''index'',
                  Route ''get'' ''/x/v2'' ''A'' ''index'', Listen (PortString ''8080'')],
           server = Some (PortString ''8080'')\<rparr>
   \<and> route_table [Use ''urlencoded'', Use ''json'',
                  Route ''get'' ''/x'' ''A'' ''index'', Route ''get'' ''/x'' ''B'' ''index'',
                  Route ''get'' ''/x/v2'' ''A'' ''index'', Listen (PortNumber 3000)]
     = route_table [Use ''urlencoded'', Use ''json'',
                  Route ''get'' ''/x'' ''A'' ''index'', Route ''get'' ''/x'' ''B'' ''index'',
                  Route ''get'' ''/x/v2'' ''A'' ''index'', Listen (PortString ''8080'')]"
proof -
  have a: "bootstrap (Suc (Suc 0)) tree_world None ''RootModule'' (PortNumber 3000) fresh =
     Some \<lparr>app = [Use ''urlencoded'', Use ''json'',
                  Route ''get'' ''/x'' ''A'' ''index'', Route ''get'' ''/x'' ''B'' ''index'',
                  Route ''get'' ''/x/v2'' ''A'' ''index'', Listen (PortNumber 3000)],
           server = Some (PortNumber 3000)\<rparr>"
    using tree_world_bootstrap [of "Suc (Suc 0)" None "PortNumber 3000"] by (simp add: override_port_def)
  have b: "bootstrap (Suc (Suc (Suc 0))) tree_world (Some ''8080'') ''RootModule'' (PortNumber 80) fresh =
     Some \<lparr>app = [Use ''urlencoded'', Use ''json'',
                  Route ''get'' ''/x'' ''A'' ''index'', Route ''get'' ''/x'' ''B'' ''index'',
                  Route ''get'' ''/x/v2'' ''A'' ''index'', Listen (PortString ''8080'')],
           server = Some (PortString ''8080'')\<rparr>"
    using tree_world_bootstrap [of "Suc (Suc (Suc 0))" "Some ''8080''" "PortNumber 80"]
    by (simp add: override_port_def)
  show ?thesis using a b bootstrap_route_table_deterministic [OF a b] by simp
qed

section \<open>Termination of the walk\<close>

lemma unpack_None_any_calls:
  "unpack n W m inh calls = None \<longleftrightarrow> unpack n W m inh [] = None"
  using unpack_append [of n W m inh calls] by simp

lemma in_import_edges: "((p, c) \<in> import_edges W) = (c \<in> set (imports_of W p))"
  by (simp add: import_edges_def)

lemma child_returns:
  assumes "unpack (Suc n) W p inh calls = Some r" and "(p, c) \<in> import_edges W"
  shows "\<exists>inh'. unpack n W c inh' [] \<noteq> None"
proof -
  from assms(1) obtain children where
    ch: "list_all2 (\<lambda>Child t. unpack n W Child
             (getPath [Str inh, as_part (Injector_get (texts W) p ''path'' (Some []) None)]) []
             = Some t)
          (imports_of W p) children"
    unfolding unpack_Suc_trace imports_of_def by blast
  from assms(2) obtain i where i: "i < length (imports_of W p)" and c: "imports_of W p ! i = c"
    by (auto simp: in_import_edges in_set_conv_nth)
  from ch i have "unpack n W (imports_of W p ! i)
      (getPath [Str inh, as_part (Injector_get (texts W) p ''path'' (Some []) None)]) []
      = Some (children ! i)"
    by (simp add: list_all2_conv_all_nth)
  then show ?thesis using c by auto
qed

lemma returns_mono:
  "unpack n W m inh [] \<noteq> None \<Longrightarrow> n \<le> n' \<Longrightarrow> unpack n' W m inh [] \<noteq> None"
  using unpack_mono [of n W m inh "[]" _ n'] by auto

lemma descendant_returns:
  "(p, c) \<in> (import_edges W)\<^sup>* \<Longrightarrow> \<exists>inh. unpack n W p inh [] \<noteq> None \<Longrightarrow>
     \<exists>inh. unpack n W c inh [] \<noteq> None"
proof (induction rule: rtrancl_induct)
  case base
  then show ?case .
next
  case (step y z)
  from step.IH [OF step.prems] obtain inh where y: "unpack n W y inh [] \<noteq> None" by blast
  then obtain k where n: "n = Suc k" by (cases n) auto
  from y n obtain r where "unpack (Suc k) W y inh [] = Some r" by auto
  from child_returns [OF this step.hyps(2)] obtain inh' where "unpack k W z inh' [] \<noteq> None" by blast
  then have "unpack n W z inh' [] \<noteq> None" using returns_mono [of k W z inh' n] n by simp
  then show ?case by blast
qed

lemma proper_descendant_returns:
  assumes "(p, c) \<in> (import_edges W)\<^sup>+" and "unpack (Suc n) W p inh [] \<noteq> None"
  shows "\<exists>inh. unpack n W c inh [] \<noteq> None"
proof -
  from assms(1) obtain q where q: "(p, q) \<in> import_edges W" and qc: "(q, c) \<in> (import_edges W)\<^sup>*"
    by (blast dest: tranclD)
  from assms(2) obtain r where "unpack (Suc n) W p inh [] = Some r" by auto
  from child_returns [OF this q] have "\<exists>inh. unpack n W q inh [] \<noteq> None" .
  with qc show ?thesis by (rule descendant_returns)
qed

lemma on_cycle_never_returns:
  "(m, m) \<in> (import_edges W)\<^sup>+ \<Longrightarrow> unpack n W m inh [] = None"
proof (induction n arbitrary: inh)
  case 0
  show ?case by simp
next
  case (Suc n)
  show ?case
  proof (rule ccontr)
    assume "unpack (Suc n) W m inh [] \<noteq> None"
    from proper_descendant_returns [OF Suc.prems this] obtain inh' where "unpack n W m inh' [] \<noteq> None"
      by blast
    then show False using Suc.IH [OF Suc.prems] by simp
  qed
qed

lemma cyclic_never_returns:
  assumes "cyclic_from W root"
  shows "unpack n W root inh calls = None"
proof (rule ccontr)
  assume "unpack n W root inh calls \<noteq> None"
  then have "unpack n W root inh [] \<noteq> None"
    using unpack_None_any_calls [of n W root inh calls] by simp
  then have r: "\<exists>inh. unpack n W root inh [] \<noteq> None" by (rule exI)
  from assms obtain m where reach: "(root, m) \<in> (import_edges W)\<^sup>*"
    and cyc: "(m, m) \<in> (import_edges W)\<^sup>+"
    by (auto simp: cyclic_from_def reachable_def)
  from descendant_returns [OF reach r] obtain inh' where "unpack n W m inh' [] \<noteq> None" by blast
  then show False using on_cycle_never_returns [OF cyc] by simp
qed

lemma unpack_each_returns:
  "(\<And>c inh calls. c \<in> set ms \<Longrightarrow> unpack n W c inh calls \<noteq> None) \<Longrightarrow>
     unpack_each n W ms inh calls \<noteq> None"
proof (induction ms arbitrary: calls)
  case Nil
  show ?case by simp
next
  case (Cons c ms)
  from Cons.prems [of c inh calls] obtain t where t: "unpack n W c inh calls = Some t" by auto
  have "unpack_each n W ms inh t \<noteq> None" using Cons.IH Cons.prems by simp
  then show ?case using t by simp
qed

lemma parent_returns:
  assumes "\<And>c inh calls. c \<in> set (imports_of W p) \<Longrightarrow> unpack n W c inh calls \<noteq> None"
  shows "unpack (Suc n) W p inh calls \<noteq> None"
  unfolding unpack_Suc using unpack_each_returns [of "imports_of W p" n W] assms
  by (simp add: imports_of_def)

lemma always_returns_mono:
  "\<forall>inh calls. unpack n W c inh calls \<noteq> None \<Longrightarrow> n \<le> n' \<Longrightarrow>
     \<forall>inh calls. unpack n' W c inh calls \<noteq> None"
  using unpack_mono [of n W c _ _ _ n'] by (metis not_Some_eq)

lemma common_depth:
  "(\<And>c. c \<in> set ms \<Longrightarrow> \<exists>n. \<forall>inh calls. unpack n W c inh calls \<noteq> None) \<Longrightarrow>
     \<exists>n. \<forall>c \<in> set ms. \<forall>inh calls. unpack n W c inh calls \<noteq> None"
proof (induction ms)
  case Nil
  show ?case by simp
next
  case (Cons c ms)
  from Cons.prems [of c] obtain k where k: "\<forall>inh calls. unpack k W c inh calls \<noteq> None" by auto
  from Cons.IH Cons.prems obtain l where l: "\<forall>d \<in> set ms. \<forall>inh calls. unpack l W d inh calls \<noteq> None"
    by auto
  have "\<forall>inh calls. unpack (max k l) W c inh calls \<noteq> None"
    using always_returns_mono [OF k, of "max k l"] by simp
  moreover have "\<forall>d \<in> set ms. \<forall>inh calls. unpack (max k l) W d inh calls \<noteq> None"
    using l always_returns_mono [of l W _ "max k l"] by simp
  ultimately show ?case by auto
qed

lemma reachable_step: "p \<in> reachable W root \<Longrightarrow> (p, c) \<in> import_edges W \<Longrightarrow> c \<in> reachable W root"
  by (auto simp: reachable_def intro: rtrancl_into_rtrancl)

lemma acyclic_returns:
  assumes fin: "finite (reachable W root)" and acyc: "\<not> cyclic_from W root"
  shows "\<exists>n. \<forall>inh calls. unpack n W root inh calls \<noteq> None"
proof -
  define R where "R = {(c, p). p \<in> reachable W root \<and> (p, c) \<in> import_edges W}"
  have sub: "R \<subseteq> reachable W root \<times> reachable W root"
    by (auto simp: R_def intro: reachable_step)
  have finR: "finite R" using sub fin by (meson finite_SigmaI finite_subset)
  have conv: "R \<subseteq> (import_edges W)\<inverse>" by (auto simp: R_def)
  have "acyclic R"
  proof (rule acyclicI, rule allI, rule notI)
    fix x assume x: "(x, x) \<in> R\<^sup>+"
    then obtain z where "(z, x) \<in> R" by (blast dest: tranclD2)
    then have reach: "x \<in> reachable W root" by (simp add: R_def)
    from x have "(x, x) \<in> ((import_edges W)\<inverse>)\<^sup>+" using trancl_mono [OF _ conv] by blast
    then have "(x, x) \<in> (import_edges W)\<^sup>+" by (simp add: trancl_converse)
    with reach acyc show False by (auto simp: cyclic_from_def)
  qed
  with finR have wf: "wf R" by (rule finite_acyclic_wf)
  have "m \<in> reachable W root \<longrightarrow> (\<exists>n. \<forall>inh calls. unpack n W m inh calls \<noteq> None)" for m
  proof (induction m rule: wf_induct_rule [OF wf])
    case (1 p)
    show ?case
    proof
      assume p: "p \<in> reachable W root"
      have "\<exists>n. \<forall>inh calls. unpack n W c inh calls \<noteq> None" if "c \<in> set (imports_of W p)" for c
      proof -
        from that have e: "(p, c) \<in> import_edges W" by (simp add: in_import_edges)
        then have "(c, p) \<in> R" using p by (simp add: R_def)
        moreover have "c \<in> reachable W root" using p e by (rule reachable_step)
        ultimately show ?thesis using "1.IH" by blast
      qed
      from common_depth [of "imports_of W p" W, OF this] obtain n where
        n: "\<forall>c \<in> set (imports_of W p). \<forall>inh calls. unpack n W c inh calls \<noteq> None"
        by blast
      have "\<forall>inh calls. unpack (Suc n) W p inh calls \<noteq> None"
        using parent_returns [of W p n] n by blast
      then show "\<exists>n. \<forall>inh calls. unpack n W p inh calls \<noteq> None" by blast
    qed
  qed
  moreover have "root \<in> reachable W root" by (simp add: reachable_def)
  ultimately show ?thesis by blast
qed

text \<open>
  C7. The walk has no cycle detection. When the modules reachable from the root through
  \<open>imports\<close> are finitely many and none of them reaches itself, the walk returns at some
  depth; when one of them reaches itself, the walk returns at no depth. On a module with
  the empty path, no exports and no imports it returns having registered nothing.
\<close>

theorem unpack_returns_unless_cyclic:
  "(finite (reachable W root) \<and> \<not> cyclic_from W root
      \<longrightarrow> (\<exists>n result. unpack n W root inputPath calls = Some result))
   \<and> (cyclic_from W root \<longrightarrow> (\<forall>n. unpack n W root inputPath calls = None))
   \<and> unpack (Suc 0) bare_world ''BareModule'' [] [] = Some []"
proof (intro conjI impI)
  assume "finite (reachable W root) \<and> \<not> cyclic_from W root"
  then obtain n where "\<forall>inh calls. unpack n W root inh calls \<noteq> None"
    using acyclic_returns by blast
  then have "unpack n W root inputPath calls \<noteq> None" by simp
  then obtain result where "unpack n W root inputPath calls = Some result" by auto
  then show "\<exists>n result. unpack n W root inputPath calls = Some result" by blast
next
  assume "cyclic_from W root"
  then show "\<forall>n. unpack n W root inputPath calls = None"
    using cyclic_never_returns by blast
next
  show "unpack (Suc 0) bare_world ''BareModule'' [] [] = Some []"
    by (simp add: bare_world_def Injector_get_def addExportedComponents_def getPath_def Let_def)
qed

lemma tree_world_edges:
  "import_edges tree_world = {(''RootModule'', ''FirstModule''), (''RootModule'', ''SecondModule'')}"
  by (auto simp: import_edges_def imports_of_def tree_world_def Injector_get_def split: if_splits)

lemma reachable_subset: "reachable W root \<subseteq> insert root (Range (import_edges W))"
  unfolding reachable_def by (auto elim: rtranclE)

lemma cyclic_from_Domain_Range:
  "cyclic_from W root \<Longrightarrow> \<exists>m. m \<in> Domain (import_edges W) \<and> m \<in> Range (import_edges W)"
  unfolding cyclic_from_def by (meson Domain.intros Range.intros tranclD tranclD2)

lemma tree_world_finite: "finite (reachable tree_world ''RootModule'')"
  using reachable_subset [of tree_world "''RootModule''"]
  by (rule finite_subset) (simp add: tree_world_edges)

lemma tree_world_acyclic: "\<not> cyclic_from tree_world ''RootModule''"
  using cyclic_from_Domain_Range [of tree_world "''RootModule''"]
  by (auto simp: tree_world_edges)

lemma loop_world_cyclic: "cyclic_from loop_world ''LoopModule''"
proof -
  have "(''LoopModule'', ''LoopModule'') \<in> import_edges loop_world"
    by (simp add: import_edges_def imports_of_def loop_world_def Injector_get_def)
  then have "(''LoopModule'', ''LoopModule'') \<in> (import_edges loop_world)\<^sup>+" by (rule r_into_trancl)
  then show ?thesis by (auto simp: cyclic_from_def reachable_def)
qed

theorem unpack_returns_unless_cyclic_witness:
  "finite (reachable tree_world ''RootModule'')
   \<and> \<not> cyclic_from tree_world ''RootModule''
   \<and> (\<exists>n result. unpack n tree_world ''RootModule'' [] [] = Some result)
   \<and> cyclic_from loop_world ''LoopModule''
   \<and> (\<forall>n. unpack n loop_world ''LoopModule'' [] [] = None)"
  using unpack_returns_unless_cyclic [of tree_world "''RootModule''" "[]" "[]"]
    unpack_returns_unless_cyclic [of loop_world "''LoopModule''" "[]" "[]"]
    tree_world_finite tree_world_acyclic loop_world_cyclic
  by blast

end
